theory Spec2Isabelle
  imports Main "HOL-Library.Word"
begin

section \<open>The data source resolution cache (package resolver, \<open>dsCache\<close>)\<close>

text \<open>
  A shallow embedding of \<open>dsCache.check\<close> and \<open>dsCache.getDS\<close>. Go maps are partial
  functions, the pointer-valued entries \<open>*dsVal\<close> are the values they point to (a
  \<open>dsVal\<close> is never written after it has been filed, and \<open>nil\<close> is never filed, so an
  absent key and a \<open>nil\<close> entry coincide), \<open>int64\<close> is a 64-bit word, an \<open>error\<close>
  is an optional value (\<open>None\<close> is \<open>nil\<close>), and \<open>time.Time\<close> is an instant in
  nanoseconds.
\<close>

subsection \<open>Data model\<close>

text \<open>
  The fields of \<open>datasources.DataSource\<close> that \<open>check\<close> reads, with the prefix
  \<open>ds_\<close> to keep them apart from the fields of \<open>dsVal\<close>.
\<close>

record DataSource =
  ds_Id :: "64 word"
  ds_OrgId :: "64 word"
  ds_Name :: string
  ds_Type :: string
  ds_Uid :: string
  ds_IsDefault :: bool

record dsVal =
  InternalID :: "64 word"
  IsDefault :: bool
  Name :: string
  Type :: string
  UID :: string
  PluginExists :: bool

datatype error = CatalogError string

type_synonym orgIndex = "string \<rightharpoonup> dsVal"

type_synonym snapshot = "64 word \<rightharpoonup> orgIndex"

subsection \<open>\<open>fmt.Sprintf("%d", \<dots>)\<close> on an \<open>int64\<close>\<close>

definition digit :: "nat \<Rightarrow> char" where
  "digit n = ''0123456789'' ! n"

function decimal :: "nat \<Rightarrow> string" where
  "decimal n = (if n < 10 then [digit n] else decimal (n div 10) @ [digit (n mod 10)])"
  by pat_completeness auto
termination
  by (relation "measure (\<lambda>n. n)") auto

declare decimal.simps [simp del]

definition sprintf_d :: "64 word \<Rightarrow> string" where
  "sprintf_d w =
     (if sint w < 0 then CHR ''-'' # decimal (nat (- sint w)) else decimal (nat (sint w)))"

subsection \<open>\<open>check\<close>: building the snapshot\<close>

text \<open>Lines 52--60: the descriptor of one catalog record.\<close>

definition newDsVal :: "(string \<Rightarrow> bool) \<Rightarrow> DataSource \<Rightarrow> dsVal" where
  "newDsVal plugin d =
     \<lparr>InternalID = ds_Id d, IsDefault = ds_IsDefault d, Name = ds_Name d,
      Type = ds_Type d, UID = ds_Uid d, PluginExists = plugin (ds_Type d)\<rparr>"

text \<open>
  Lines 51--74: the loop over \<open>q.Result\<close>, on the pair \<open>(cache, defaultDS)\<close>. A later
  record with the same \<open>OrgId\<close> and \<open>Uid\<close> replaces the earlier one, and the last record
  of a tenant marked \<open>IsDefault\<close> is its default.
\<close>

fun fileByUID ::
  "(string \<Rightarrow> bool) \<Rightarrow> DataSource list \<Rightarrow> snapshot \<times> (64 word \<rightharpoonup> dsVal) \<Rightarrow>
   snapshot \<times> (64 word \<rightharpoonup> dsVal)" where
  "fileByUID plugin [] acc = acc"
| "fileByUID plugin (d # rest) (cache, defaultDS) =
     (let val = newDsVal plugin d;
          orgCache = (case cache (ds_OrgId d) of None \<Rightarrow> Map.empty | Some m \<Rightarrow> m);
          cache' = cache(ds_OrgId d \<mapsto> orgCache(UID val \<mapsto> val));
          defaultDS' = (if IsDefault val then defaultDS(ds_OrgId d \<mapsto> val) else defaultDS)
      in fileByUID plugin rest (cache', defaultDS'))"

text \<open>Lines 79--90: the body of the inner loop, for the entry \<open>v\<close> that \<open>range\<close> yielded.\<close>

definition fileSecondary :: "dsVal \<Rightarrow> orgIndex \<Rightarrow> orgIndex" where
  "fileSecondary v m =
     (let idKey = sprintf_d (InternalID v);
          m1 = (if m idKey = None then m(idKey \<mapsto> v) else m);
          m2 = (if m1 (Name v) = None then m1(Name v \<mapsto> v) else m1)
      in m2)"

text \<open>
  Line 78: \<open>range\<close> over the index that the body writes to. The keys are visited in the
  order given; each visit reads the entry the index holds at that moment, and a key the
  index does not hold yields nothing. Go visits every key the index held when the loop
  began once, and may or may not visit a key filed during the loop.
\<close>

fun rangeSecondary :: "string list \<Rightarrow> orgIndex \<Rightarrow> orgIndex" where
  "rangeSecondary [] m = m"
| "rangeSecondary (k # ks) m =
     rangeSecondary ks (case m k of None \<Rightarrow> m | Some v \<Rightarrow> fileSecondary v m)"

text \<open>Lines 94--99: the built-in descriptor; \<open>InternalID\<close> and \<open>IsDefault\<close> keep Go's zero values.\<close>

definition gds :: "string \<Rightarrow> dsVal" where
  "gds G = \<lparr>InternalID = 0, IsDefault = False, Name = G, Type = G, UID = G, PluginExists = True\<rparr>"

text \<open>Lines 100--108, for one tenant with default candidate \<open>dflt\<close> (\<open>defaultDS[orgID]\<close>).\<close>

definition fileDefault :: "string \<Rightarrow> dsVal option \<Rightarrow> orgIndex \<Rightarrow> orgIndex" where
  "fileDefault G dflt m =
     (let m1 = m(G \<mapsto> gds G);
          d = (case dflt of None \<Rightarrow> gds G | Some v \<Rightarrow> v);
          m2 = m1([] \<mapsto> d);
          m3 = (if m2 ''default'' = None then m2(''default'' \<mapsto> d) else m2)
      in m3)"

text \<open>
  Lines 76--109: the loop over the tenants of \<open>cache\<close>. One iteration reads and writes
  only that tenant's index and \<open>defaultDS[orgID]\<close>, so the iterations are independent
  and the loop is the pointwise image.
\<close>

definition indexOrgs ::
  "string \<Rightarrow> (64 word \<Rightarrow> string list) \<Rightarrow> snapshot \<times> (64 word \<rightharpoonup> dsVal) \<Rightarrow> snapshot" where
  "indexOrgs G keys acc =
     (\<lambda>orgID. case fst acc orgID of
        None \<Rightarrow> None
      | Some orgDSCache \<Rightarrow>
          Some (fileDefault G (snd acc orgID) (rangeSecondary (keys orgID) orgDSCache)))"

text \<open>Lines 42--43 and 51--109: the snapshot built from a catalog result.\<close>

definition build ::
  "string \<Rightarrow> (64 word \<Rightarrow> string list) \<Rightarrow> (string \<Rightarrow> bool) \<Rightarrow> DataSource list \<Rightarrow> snapshot" where
  "build G keys plugin rs = indexOrgs G keys (fileByUID plugin rs (Map.empty, Map.empty))"

subsection \<open>The cache object and its surroundings\<close>

text \<open>
  \<open>datasources.DataSourceService\<close>, as far as \<open>check\<close> uses it: what
  \<open>GetAllDataSources\<close> answers (an error, or \<open>q.Result\<close>), and how often it has been
  asked.
\<close>

record DataSourceService =
  GetAllDataSources :: "error + DataSource list"
  calls :: nat

text \<open>
  The struct \<open>dsCache\<close>. The field \<open>cache\<close> is \<open>None\<close> while the Go map is \<open>nil\<close>;
  \<open>pluginRegistry\<close> is the second result of \<open>registry.Service.Plugin\<close>. The mutex
  \<open>mu\<close> is the boundary between \<open>check\<close> and \<open>check_locked\<close> below.
\<close>

record dsCache =
  ds :: DataSourceService
  pluginRegistry :: "string \<Rightarrow> bool"
  cache :: "snapshot option"
  timestamp :: int

text \<open>
  What a run depends on beyond the struct: the constant \<open>grafanads.DatasourceUID\<close>
  (declared outside these sources), the order in which \<open>range\<close> yields the keys of a
  tenant's index (unspecified in Go), the two readings of \<open>getNow()\<close> (one in
  \<open>getDS\<close>, one in \<open>check\<close>), and what other goroutines did to the struct while this
  one waited in \<open>c.mu.Lock()\<close>.
\<close>

record env =
  DatasourceUID :: string
  rangeKeys :: "64 word \<Rightarrow> string list"
  getNow_getDS :: int
  getNow_check :: int
  waitLock :: "dsCache \<Rightarrow> dsCache"

subsection \<open>\<open>check\<close>: guard, query and publication\<close>

text \<open>
  Lines 38--113: \<open>check\<close> from the moment it holds the mutex, with \<open>old\<close> the timestamp
  it read before.
\<close>

definition check_locked :: "env \<Rightarrow> int \<Rightarrow> dsCache \<Rightarrow> error option \<times> dsCache" where
  "check_locked e old c =
     (if timestamp c \<noteq> old then (None, c)
      else
        let c1 = c\<lparr>ds := (ds c)\<lparr>calls := calls (ds c) + 1\<rparr>\<rparr> in
        case GetAllDataSources (ds c) of
          Inl err \<Rightarrow> (Some err, c1)
        | Inr rs \<Rightarrow>
            (None, c1\<lparr>cache := Some (build (DatasourceUID e) (rangeKeys e) (pluginRegistry c) rs),
                      timestamp := getNow_check e\<rparr>))"

text \<open>Lines 32--36: read \<open>old\<close>, wait for the mutex, then run the critical section.\<close>

definition check :: "env \<Rightarrow> dsCache \<Rightarrow> error option \<times> dsCache" where
  "check e c = check_locked e (timestamp c) (waitLock e c)"

subsection \<open>\<open>getDS\<close>\<close>

definition minute :: int where
  "minute = 60 * 1000000000"

text \<open>Line 120: the condition under which \<open>getDS\<close> calls \<open>check\<close>.\<close>

definition stale :: "env \<Rightarrow> dsCache \<Rightarrow> bool" where
  "stale e c = (cache c = None \<or> timestamp c < getNow_getDS e + minute * (- 1))"

text \<open>Lines 126--134: the lookup; reading a \<open>nil\<close> map finds nothing.\<close>

definition lookupDS :: "snapshot option \<Rightarrow> 64 word \<Rightarrow> string \<Rightarrow> dsVal option" where
  "lookupDS s orgID uid =
     (case s of
        None \<Rightarrow> None
      | Some cm \<Rightarrow> (case cm orgID of None \<Rightarrow> None | Some v \<Rightarrow> v uid))"

text \<open>
  \<open>getDS\<close> for the tenant \<open>orgID\<close> of the context: the descriptor (\<open>None\<close> is \<open>nil\<close>),
  the error, and the struct afterwards.
\<close>

definition getDS ::
  "env \<Rightarrow> 64 word \<Rightarrow> string \<Rightarrow> dsCache \<Rightarrow> (dsVal option \<times> error option) \<times> dsCache" where
  "getDS e orgID uid c =
     (let (err, c') = (if stale e c then check e c else (None, c))
      in ((lookupDS (cache c') orgID uid, err), c'))"

subsection \<open>Notions of the specification\<close>

text \<open>The secondary keys of a descriptor: its stringified internal id and its name.\<close>

definition secondaryKeys :: "dsVal \<Rightarrow> string set" where
  "secondaryKeys v = {sprintf_d (InternalID v), Name v}"

text \<open>
  The default the specification names for a tenant: the catalog record of the tenant
  marked \<open>isDefault\<close> (the last one, should the catalog mark several), as a descriptor;
  the built-in descriptor when there is none.
\<close>

definition catalogDefault :: "(string \<Rightarrow> bool) \<Rightarrow> 64 word \<Rightarrow> DataSource list \<Rightarrow> dsVal option" where
  "catalogDefault plugin orgID rs =
     (case filter (\<lambda>d. ds_OrgId d = orgID \<and> ds_IsDefault d) rs of
        [] \<Rightarrow> None
      | d # rest \<Rightarrow> Some (newDsVal plugin (last (d # rest))))"

definition expectedDefault ::
  "string \<Rightarrow> (string \<Rightarrow> bool) \<Rightarrow> 64 word \<Rightarrow> DataSource list \<Rightarrow> dsVal" where
  "expectedDefault G plugin orgID rs =
     (case catalogDefault plugin orgID rs of None \<Rightarrow> gds G | Some v \<Rightarrow> v)"

text \<open>
  A catalog without competing secondary keys: within one tenant, no two different
  records share a stringified internal id or a name, and no record's name is the
  stringified internal id of another.
\<close>

definition collisionFree :: "DataSource list \<Rightarrow> bool" where
  "collisionFree rs =
     (\<forall>d1\<in>set rs. \<forall>d2\<in>set rs.
        ds_OrgId d1 = ds_OrgId d2 \<and>
        (sprintf_d (ds_Id d1) = sprintf_d (ds_Id d2) \<or> sprintf_d (ds_Id d1) = ds_Name d2 \<or>
         ds_Name d1 = sprintf_d (ds_Id d2) \<or> ds_Name d1 = ds_Name d2) \<longrightarrow>
        d1 = d2)"

text \<open>An iteration order that visits the uid of every catalog record of every tenant.\<close>

definition covers :: "(64 word \<Rightarrow> string list) \<Rightarrow> DataSource list \<Rightarrow> bool" where
  "covers keys rs = (\<forall>d\<in>set rs. ds_Uid d \<in> set (keys (ds_OrgId d)))"

text \<open>
  What the index of a tenant holds under a key when the secondary pass has ended and
  line 93 is reached: lines 51--91 for that tenant.
\<close>

definition filedBeforeDefault ::
  "(64 word \<Rightarrow> string list) \<Rightarrow> (string \<Rightarrow> bool) \<Rightarrow> DataSource list \<Rightarrow> 64 word \<Rightarrow> string \<Rightarrow>
   dsVal option" where
  "filedBeforeDefault keys plugin rs orgID k =
     (case fst (fileByUID plugin rs (Map.empty, Map.empty)) orgID of
        None \<Rightarrow> None
      | Some orgDSCache \<Rightarrow> rangeSecondary (keys orgID) orgDSCache k)"

subsection \<open>Sample data\<close>

text \<open>
  The catalog of one tenant with one record, a registry that knows its plugin type, and
  a run without concurrent callers, two minutes and more after the instant \<open>0\<close>.
\<close>

definition promDS :: DataSource where
  "promDS = \<lparr>ds_Id = 7, ds_OrgId = 1, ds_Name = ''Prometheus'', ds_Type = ''prometheus'',
     ds_Uid = ''abc'', ds_IsDefault = True\<rparr>"

definition exPlugins :: "string \<Rightarrow> bool" where
  "exPlugins t = (t = ''prometheus'')"

definition exEnv :: env where
  "exEnv = \<lparr>DatasourceUID = ''grafana'', rangeKeys = (\<lambda>orgID. [''abc'']),
     getNow_getDS = 200000000000, getNow_check = 200000000001, waitLock = (\<lambda>c. c)\<rparr>"

text \<open>The cache at cold start, with a snapshot built at the instant \<open>0\<close>, and with that
  snapshot while the catalog is unavailable.\<close>

definition coldCache :: dsCache where
  "coldCache = \<lparr>ds = \<lparr>GetAllDataSources = Inr [promDS], calls = 0\<rparr>,
     pluginRegistry = exPlugins, cache = None, timestamp = 0\<rparr>"

definition agedCache :: dsCache where
  "agedCache = \<lparr>ds = \<lparr>GetAllDataSources = Inr [promDS], calls = 1\<rparr>,
     pluginRegistry = exPlugins,
     cache = Some (build ''grafana'' (\<lambda>orgID. [''abc'']) exPlugins [promDS]), timestamp = 0\<rparr>"

definition brokenCache :: dsCache where
  "brokenCache =
     agedCache\<lparr>ds := \<lparr>GetAllDataSources = Inl (CatalogError ''unavailable''), calls = 1\<rparr>\<rparr>"

text \<open>A run in which another goroutine completes its own \<open>check\<close> while this one waits
  for the mutex.\<close>

definition exEnvRace :: env where
  "exEnvRace = exEnv\<lparr>waitLock := (\<lambda>c. snd (check_locked exEnv (timestamp c) c))\<rparr>"

text \<open>
  Two records of tenant 1, the name of the first being the stringified internal id of
  the second, the index that holds them by uid, and the two orders in which \<open>range\<close>
  can yield its keys.
\<close>

definition dupA :: DataSource where
  "dupA = \<lparr>ds_Id = 1, ds_OrgId = 1, ds_Name = ''2'', ds_Type = ''loki'', ds_Uid = ''a'',
     ds_IsDefault = False\<rparr>"

definition dupB :: DataSource where
  "dupB = \<lparr>ds_Id = 2, ds_OrgId = 1, ds_Name = ''loki'', ds_Type = ''loki'', ds_Uid = ''b'',
     ds_IsDefault = False\<rparr>"

definition dupIndex :: orgIndex where
  "dupIndex = [''a'' \<mapsto> newDsVal exPlugins dupA, ''b'' \<mapsto> newDsVal exPlugins dupB]"

definition envAB :: env where
  "envAB = exEnv\<lparr>rangeKeys := (\<lambda>orgID. [''a'', ''b''])\<rparr>"

definition envBA :: env where
  "envBA = exEnv\<lparr>rangeKeys := (\<lambda>orgID. [''b'', ''a''])\<rparr>"

definition coldDup :: dsCache where
  "coldDup = coldCache\<lparr>ds := \<lparr>GetAllDataSources = Inr [dupA, dupB], calls = 0\<rparr>\<rparr>"

text \<open>
  Tenant 1 with a default record and a second record whose name is \<open>default\<close>, and the
  two orders of its keys.
\<close>

definition namedDefault :: DataSource where
  "namedDefault = \<lparr>ds_Id = 3, ds_OrgId = 1, ds_Name = ''default'', ds_Type = ''loki'',
     ds_Uid = ''x'', ds_IsDefault = False\<rparr>"

definition envNamed :: env where
  "envNamed = exEnv\<lparr>rangeKeys := (\<lambda>orgID. [''abc'', ''x''])\<rparr>"

definition coldNamed :: dsCache where
  "coldNamed = coldCache\<lparr>ds := \<lparr>GetAllDataSources = Inr [promDS, namedDefault], calls = 0\<rparr>\<rparr>"

definition envNamedRev :: env where
  "envNamedRev = exEnv\<lparr>rangeKeys := (\<lambda>orgID. [''x'', ''abc''])\<rparr>"

lemmas ex_defs =
  promDS_def exPlugins_def exEnv_def coldCache_def agedCache_def brokenCache_def exEnvRace_def

lemmas value_defs = newDsVal_def sprintf_d_def decimal.simps digit_def gds_def

lemmas build_defs = build_def indexOrgs_def fileDefault_def fileSecondary_def Let_def

lemmas run_defs = getDS_def stale_def check_def check_locked_def lookupDS_def

section \<open>Properties\<close>

subsection \<open>The branches of \<open>check\<close> and \<open>getDS\<close>\<close>

lemma check_locked_guard: "timestamp c \<noteq> old \<Longrightarrow> check_locked e old c = (None, c)"
  by (simp add: check_locked_def)

lemma check_locked_fail:
  "GetAllDataSources (ds c) = Inl err \<Longrightarrow>
   check_locked e (timestamp c) c = (Some err, c\<lparr>ds := (ds c)\<lparr>calls := calls (ds c) + 1\<rparr>\<rparr>)"
  by (simp add: check_locked_def)

lemma check_fail_cache:
  "GetAllDataSources (ds c) = Inl err \<Longrightarrow> cache (snd (check_locked e old c)) = cache c"
  by (simp add: check_locked_def)

lemma check_error:
  "fst (check e c) =
     (if timestamp (waitLock e c) = timestamp c
      then (case GetAllDataSources (ds (waitLock e c)) of Inl err \<Rightarrow> Some err | Inr rs \<Rightarrow> None)
      else None)"
  by (simp add: check_def check_locked_def split: sum.split)

lemma check_calls:
  "calls (ds (snd (check e c))) =
     calls (ds (waitLock e c)) + (if timestamp (waitLock e c) = timestamp c then 1 else 0)"
  by (simp add: check_def check_locked_def Let_def split: sum.split)

lemma getDS_fresh:
  "\<not> stale e c \<Longrightarrow> getDS e orgID uid c = ((lookupDS (cache c) orgID uid, None), c)"
  by (simp add: getDS_def)

lemma getDS_stale:
  "stale e c \<Longrightarrow>
   getDS e orgID uid c =
     ((lookupDS (cache (snd (check e c))) orgID uid, fst (check e c)), snd (check e c))"
  by (simp add: getDS_def split_beta)

lemma getDS_descriptor:
  "fst (fst (getDS e orgID uid c)) = lookupDS (cache (snd (getDS e orgID uid c))) orgID uid"
  by (cases "stale e c") (simp_all add: getDS_fresh getDS_stale)

lemma getDS_state: "snd (getDS e orgID uid c) = (if stale e c then snd (check e c) else c)"
  by (simp add: getDS_fresh getDS_stale)

lemma getDS_error:
  "snd (fst (getDS e orgID uid c)) = (if stale e c then fst (check e c) else None)"
  by (simp add: getDS_fresh getDS_stale)

subsection \<open>The sample runs\<close>

lemma stale_coldCache: "stale exEnv coldCache"
  by (simp add: stale_def coldCache_def)

lemma stale_brokenCache: "stale exEnv brokenCache"
  by (simp add: stale_def minute_def ex_defs)

lemma stale_agedCache: "stale exEnvRace agedCache"
  by (simp add: stale_def minute_def ex_defs)

lemma build_prom:
  "build ''grafana'' (\<lambda>orgID. [''abc'']) exPlugins [promDS] =
     [1 \<mapsto> [''abc'' \<mapsto> newDsVal exPlugins promDS, ''7'' \<mapsto> newDsVal exPlugins promDS,
       ''Prometheus'' \<mapsto> newDsVal exPlugins promDS, ''grafana'' \<mapsto> gds ''grafana'',
       [] \<mapsto> newDsVal exPlugins promDS, ''default'' \<mapsto> newDsVal exPlugins promDS]]"
  by (rule ext) (simp add: build_def indexOrgs_def fileDefault_def fileSecondary_def newDsVal_def
      sprintf_d_def decimal.simps digit_def Let_def promDS_def)

lemma check_coldCache:
  "check exEnv coldCache =
     (None, coldCache\<lparr>ds := \<lparr>GetAllDataSources = Inr [promDS], calls = 1\<rparr>,
        cache := Some (build ''grafana'' (\<lambda>orgID. [''abc'']) exPlugins [promDS]),
        timestamp := 200000000001\<rparr>)"
  by (simp add: check_def check_locked_def exEnv_def coldCache_def)

lemma getDS_cold_state:
  "cache (snd (getDS exEnv orgID uid coldCache)) =
     Some (build ''grafana'' (\<lambda>orgID. [''abc'']) exPlugins [promDS])"
  by (simp add: getDS_state stale_coldCache check_coldCache)

lemma getDS_cold_unknown_tenant: "fst (getDS exEnv 2 uid coldCache) = (None, None)"
  by (simp add: getDS_stale [OF stale_coldCache] check_coldCache lookupDS_def build_prom)

lemma getDS_cold_unknown_uid: "fst (getDS exEnv 1 ''nope'' coldCache) = (None, None)"
  by (simp add: getDS_stale [OF stale_coldCache] check_coldCache lookupDS_def build_prom)

lemma getDS_broken:
  "fst (getDS exEnv 1 ''abc'' brokenCache) =
     (Some (newDsVal exPlugins promDS), Some (CatalogError ''unavailable''))"
  by (subst getDS_stale [OF stale_brokenCache])
    (simp add: check_def check_locked_def lookupDS_def build_prom exEnv_def brokenCache_def
      agedCache_def)

subsection \<open>The concurrency guard of \<open>check\<close>\<close>

text \<open>
  Claim C7. \<open>check\<close> reads \<open>c.timestamp\<close> before it asks for the mutex and compares it
  with the field once it holds the mutex. When the two differ it returns \<open>nil\<close> at once:
  the struct is the one it found on entering the critical section, so the catalog was not
  queried and neither the snapshot nor the timestamp was written.
\<close>

theorem check_guard_returns_early:
  "timestamp (waitLock e c) \<noteq> timestamp c \<Longrightarrow>
   check e c = (None, waitLock e c) \<and>
   check_locked e (timestamp c) (waitLock e c) = (None, waitLock e c)"
  by (simp add: check_def check_locked_guard)

theorem check_guard_returns_early_witness:
  "timestamp (waitLock exEnvRace agedCache) \<noteq> timestamp agedCache \<and>
   check exEnvRace agedCache = (None, waitLock exEnvRace agedCache) \<and>
   calls (ds (snd (check exEnvRace agedCache))) = 2 \<and>
   timestamp (snd (check exEnvRace agedCache)) = 200000000001"
proof -
  have h: "timestamp (waitLock exEnvRace agedCache) \<noteq> timestamp agedCache"
    by (simp add: ex_defs check_locked_def)
  have w: "waitLock exEnvRace agedCache = snd (check_locked exEnv 0 agedCache)"
    by (simp add: exEnvRace_def agedCache_def)
  from check_guard_returns_early [OF h]
  have "check exEnvRace agedCache = (None, waitLock exEnvRace agedCache)"
    by simp
  with h show ?thesis
    by (simp add: w) (simp add: ex_defs check_locked_def)
qed

subsection \<open>A failing catalog\<close>

text \<open>
  Claim C3. When \<open>GetAllDataSources\<close> fails inside the critical section, \<open>check\<close>
  returns that very error, and the struct differs from the one before only in the number
  of catalog queries: \<open>cache\<close> and \<open>timestamp\<close> are as they were. A \<open>getDS\<close> whose
  refresh entered the critical section in such a state therefore returns, for every
  tenant and identifier, the descriptor that the snapshot held before.
\<close>

theorem check_catalog_failure_keeps_snapshot:
  assumes "GetAllDataSources (ds c) = Inl err"
  shows "check_locked e (timestamp c) c =
           (Some err, c\<lparr>ds := (ds c)\<lparr>calls := calls (ds c) + 1\<rparr>\<rparr>) \<and>
         cache (snd (check_locked e (timestamp c) c)) = cache c \<and>
         timestamp (snd (check_locked e (timestamp c) c)) = timestamp c \<and>
         (\<forall>c0 orgID uid. waitLock e c0 = c \<and> stale e c0 \<longrightarrow>
            fst (fst (getDS e orgID uid c0)) = lookupDS (cache c) orgID uid)"
proof -
  have "fst (fst (getDS e orgID uid c0)) = lookupDS (cache c) orgID uid"
    if "waitLock e c0 = c" "stale e c0" for c0 orgID uid
    using that assms by (simp add: getDS_stale check_def check_fail_cache)
  then show ?thesis
    using assms by (simp add: check_locked_fail)
qed

theorem check_catalog_failure_keeps_snapshot_witness:
  "GetAllDataSources (ds brokenCache) = Inl (CatalogError ''unavailable'') \<and>
   fst (check_locked exEnv (timestamp brokenCache) brokenCache) =
     Some (CatalogError ''unavailable'') \<and>
   cache (snd (check_locked exEnv (timestamp brokenCache) brokenCache)) = cache brokenCache \<and>
   timestamp (snd (check_locked exEnv (timestamp brokenCache) brokenCache)) = 0 \<and>
   fst (fst (getDS exEnv 1 ''abc'' brokenCache)) = Some (newDsVal exPlugins promDS)"
proof -
  have h: "GetAllDataSources (ds brokenCache) = Inl (CatalogError ''unavailable'')"
    by (simp add: brokenCache_def)
  have w: "waitLock exEnv brokenCache = brokenCache"
    by (simp add: exEnv_def)
  have l: "lookupDS (cache brokenCache) 1 ''abc'' = Some (newDsVal exPlugins promDS)"
    by (simp add: brokenCache_def agedCache_def lookupDS_def build_prom)
  have t: "timestamp brokenCache = 0"
    by (simp add: brokenCache_def agedCache_def)
  from check_catalog_failure_keeps_snapshot [OF h, of exEnv] w stale_brokenCache l t h
  show ?thesis by simp
qed

subsection \<open>The error that \<open>getDS\<close> returns\<close>

text \<open>
  Claim C10. The error of \<open>getDS\<close> is the error of the \<open>check\<close> it called and \<open>nil\<close>
  when it called none: it is the catalog's error when the snapshot was stale, the guard
  let the refresh through and the catalog failed, and \<open>nil\<close> otherwise. Neither the
  tenant nor the identifier enters it. So a descriptor can come with an error, and a
  lookup that finds no tenant, or no entry for the identifier, can come with \<open>nil\<close>.
\<close>

theorem getDS_error_is_refresh_error:
  "snd (fst (getDS e orgID uid c)) = (if stale e c then fst (check e c) else None) \<and>
   snd (fst (getDS e orgID uid c)) =
     (if stale e c \<and> timestamp (waitLock e c) = timestamp c
      then (case GetAllDataSources (ds (waitLock e c)) of Inl err \<Rightarrow> Some err | Inr rs \<Rightarrow> None)
      else None) \<and>
   (\<exists>e' orgID' uid' c' v err. fst (getDS e' orgID' uid' c') = (Some v, Some err)) \<and>
   (\<exists>e' orgID' uid' c' cm. fst (getDS e' orgID' uid' c') = (None, None) \<and>
      cache (snd (getDS e' orgID' uid' c')) = Some cm \<and> cm orgID' = None) \<and>
   (\<exists>e' orgID' uid' c' cm m. fst (getDS e' orgID' uid' c') = (None, None) \<and>
      cache (snd (getDS e' orgID' uid' c')) = Some cm \<and> cm orgID' = Some m \<and> m uid' = None)"
proof -
  have a: "snd (fst (getDS e orgID uid c)) =
     (if stale e c \<and> timestamp (waitLock e c) = timestamp c
      then (case GetAllDataSources (ds (waitLock e c)) of Inl err \<Rightarrow> Some err | Inr rs \<Rightarrow> None)
      else None)"
    by (simp add: getDS_error check_error)
  have b: "\<exists>e' orgID' uid' c' v err. fst (getDS e' orgID' uid' c') = (Some v, Some err)"
    using getDS_broken by blast
  have "fst (getDS exEnv 2 ''abc'' coldCache) = (None, None) \<and>
      cache (snd (getDS exEnv 2 ''abc'' coldCache)) =
        Some (build ''grafana'' (\<lambda>orgID. [''abc'']) exPlugins [promDS]) \<and>
      build ''grafana'' (\<lambda>orgID. [''abc'']) exPlugins [promDS] 2 = None"
    by (simp add: getDS_cold_unknown_tenant getDS_cold_state) (simp add: build_prom)
  then have c: "\<exists>e' orgID' uid' c' cm. fst (getDS e' orgID' uid' c') = (None, None) \<and>
      cache (snd (getDS e' orgID' uid' c')) = Some cm \<and> cm orgID' = None"
    by blast
  have "fst (getDS exEnv 1 ''nope'' coldCache) = (None, None) \<and>
      cache (snd (getDS exEnv 1 ''nope'' coldCache)) =
        Some (build ''grafana'' (\<lambda>orgID. [''abc'']) exPlugins [promDS]) \<and>
      (\<exists>m. build ''grafana'' (\<lambda>orgID. [''abc'']) exPlugins [promDS] 1 = Some m \<and>
         m ''nope'' = None)"
    by (simp add: getDS_cold_unknown_uid getDS_cold_state) (simp add: build_prom)
  then have d: "\<exists>e' orgID' uid' c' cm m. fst (getDS e' orgID' uid' c') = (None, None) \<and>
      cache (snd (getDS e' orgID' uid' c')) = Some cm \<and> cm orgID' = Some m \<and> m uid' = None"
    by blast
  have a': "snd (fst (getDS e orgID uid c)) = (if stale e c then fst (check e c) else None)"
    by (rule getDS_error)
  from a' a b c d show ?thesis by blast
qed

subsection \<open>Lookups that find nothing\<close>

text \<open>
  Claim C1, as stated, fails. At cold start, with a catalog that answers, \<open>getDS\<close> for a
  tenant without an index returns \<open>(nil, nil)\<close>, and so does \<open>getDS\<close> for an
  identifier that the tenant's index does not hold: no error stands for "not found".
\<close>

theorem getDS_not_found_nil_error:
  "fst (getDS exEnv 2 ''abc'' coldCache) = (None, None) \<and>
   (\<exists>cm. cache (snd (getDS exEnv 2 ''abc'' coldCache)) = Some cm \<and> cm 2 = None) \<and>
   fst (getDS exEnv 1 ''nope'' coldCache) = (None, None) \<and>
   (\<exists>cm m. cache (snd (getDS exEnv 1 ''nope'' coldCache)) = Some cm \<and> cm 1 = Some m \<and>
      m ''nope'' = None)"
  by (simp add: getDS_cold_unknown_tenant getDS_cold_unknown_uid getDS_cold_state)
    (simp add: build_prom)

text \<open>
  Claim C1, amended. When the snapshot held after the refresh attempt has no index for
  the tenant (or is \<open>nil\<close>), or has one that does not hold the identifier, \<open>getDS\<close>
  returns a \<open>nil\<close> descriptor, and its error is the error of the refresh it called:
  \<open>nil\<close> when it called none or the refresh succeeded.
\<close>

theorem getDS_not_found_returns_refresh_error:
  assumes "getDS e orgID uid c = ((v, err), c')"
    and "cache c' = None \<or>
         (\<exists>cm. cache c' = Some cm \<and>
            (cm orgID = None \<or> (\<exists>m. cm orgID = Some m \<and> m uid = None)))"
  shows "v = None \<and> err = (if stale e c then fst (check e c) else None)"
proof -
  have "lookupDS (cache c') orgID uid = None"
    using assms(2) by (auto simp: lookupDS_def)
  moreover have "v = lookupDS (cache c') orgID uid"
    using getDS_descriptor [of e orgID uid c] assms(1) by simp
  moreover have "err = (if stale e c then fst (check e c) else None)"
    using getDS_error [of e orgID uid c] assms(1) by simp
  ultimately show ?thesis by simp
qed

theorem getDS_not_found_returns_refresh_error_witness:
  "getDS exEnv 2 ''abc'' coldCache = ((None, None), snd (getDS exEnv 2 ''abc'' coldCache)) \<and>
   (\<exists>cm. cache (snd (getDS exEnv 2 ''abc'' coldCache)) = Some cm \<and> cm 2 = None) \<and>
   stale exEnv coldCache \<and> fst (check exEnv coldCache) = None"
proof -
  obtain v err c' where g: "getDS exEnv 2 ''abc'' coldCache = ((v, err), c')"
    by (metis prod.collapse)
  then have c': "c' = snd (getDS exEnv 2 ''abc'' coldCache)"
    by simp
  have n: "\<exists>cm. cache c' = Some cm \<and> cm 2 = None"
    unfolding c' by (simp add: getDS_cold_state) (simp add: build_prom)
  then have "cache c' = None \<or>
      (\<exists>cm. cache c' = Some cm \<and> (cm 2 = None \<or> (\<exists>m. cm 2 = Some m \<and> m ''abc'' = None)))"
    by blast
  from getDS_not_found_returns_refresh_error [OF g this]
  have "v = None \<and> err = None"
    by (simp add: stale_coldCache check_coldCache)
  with g n c' show ?thesis
    by (simp add: stale_coldCache check_coldCache)
qed

subsection \<open>Staleness and catalog queries\<close>

text \<open>
  Claim C6, as stated, fails. A \<open>getDS\<close> issued more than a minute after the snapshot
  was built calls \<open>check\<close>; when another goroutine published a snapshot while this one
  waited for the mutex, the guard returns before the query, and the call leaves the
  number of catalog queries where it found it on entering the critical section.
\<close>

theorem getDS_stale_guarded_no_query:
  "cache agedCache \<noteq> None \<and>
   timestamp agedCache < getNow_getDS exEnvRace - minute \<and>
   stale exEnvRace agedCache \<and>
   calls (ds (snd (getDS exEnvRace 1 ''abc'' agedCache))) =
     calls (ds (waitLock exEnvRace agedCache))"
proof -
  have h: "timestamp (waitLock exEnvRace agedCache) \<noteq> timestamp agedCache"
    by (simp add: ex_defs check_locked_def)
  have "cache agedCache \<noteq> None" "timestamp agedCache < getNow_getDS exEnvRace - minute"
    by (simp_all add: ex_defs minute_def)
  then show ?thesis
    using h by (simp add: getDS_state stale_agedCache check_calls)
qed

text \<open>
  Claim C6, amended. \<open>getDS\<close> calls \<open>check\<close> exactly when there is no snapshot or the
  timestamp is more than one minute before now. A call that does not refresh leaves the
  number of catalog queries as it is. A call that refreshes adds one query to the number
  it finds on entering the critical section when the timestamp is still the one it read
  before waiting, and none when the timestamp has changed.
\<close>

theorem getDS_query_count:
  "snd (getDS e orgID uid c) = (if stale e c then snd (check e c) else c) \<and>
   stale e c = (cache c = None \<or> timestamp c < getNow_getDS e - minute) \<and>
   calls (ds (snd (getDS e orgID uid c))) =
     (if stale e c
      then calls (ds (waitLock e c)) + (if timestamp (waitLock e c) = timestamp c then 1 else 0)
      else calls (ds c))"
  by (simp add: getDS_state check_calls stale_def)

subsection \<open>The secondary indexing pass\<close>

lemma fileSecondary_apply:
  "fileSecondary d m k =
     (case m k of
        Some v \<Rightarrow> Some v
      | None \<Rightarrow> if k = sprintf_d (InternalID d) \<or> k = Name d then Some d else None)"
  by (simp add: fileSecondary_def Let_def split: option.split)

lemma fileSecondary_keeps: "m k = Some v \<Longrightarrow> fileSecondary d m k = Some v"
  by (simp add: fileSecondary_apply)

lemma rangeSecondary_keeps: "m k = Some v \<Longrightarrow> rangeSecondary ks m k = Some v"
proof (induction ks arbitrary: m)
  case Nil
  then show ?case by simp
next
  case (Cons a ks)
  have "(case m a of None \<Rightarrow> m | Some u \<Rightarrow> fileSecondary u m) k = Some v"
    using Cons.prems by (simp add: fileSecondary_keeps split: option.split)
  then show ?case
    using Cons.IH by simp
qed

text \<open>An entry of the index after the pass was there before, or is a descriptor of the
  index filed under one of its own secondary keys.\<close>

lemma rangeSecondary_origin:
  "rangeSecondary ks m k = Some v \<Longrightarrow>
   m k = Some v \<or> ((\<exists>k'. m k' = Some v) \<and> k \<in> secondaryKeys v)"
proof (induction ks arbitrary: m)
  case Nil
  then show ?case by simp
next
  case (Cons a ks)
  let ?m' = "case m a of None \<Rightarrow> m | Some u \<Rightarrow> fileSecondary u m"
  have step: "m j = Some w \<or> ((\<exists>k'. m k' = Some w) \<and> j \<in> secondaryKeys w)"
    if "?m' j = Some w" for j w
    using that
    by (auto simp: fileSecondary_apply secondaryKeys_def split: option.splits if_splits)
  from Cons.prems have "rangeSecondary ks ?m' k = Some v"
    by simp
  then have "?m' k = Some v \<or> ((\<exists>k'. ?m' k' = Some v) \<and> k \<in> secondaryKeys v)"
    by (rule Cons.IH)
  then show ?case
    using step by blast
qed

text \<open>Once a key of the index is visited, both secondary keys of its entry are taken.\<close>

lemma rangeSecondary_files:
  "k0 \<in> set ks \<Longrightarrow> m k0 = Some v \<Longrightarrow> k \<in> secondaryKeys v \<Longrightarrow>
   rangeSecondary ks m k \<noteq> None"
proof (induction ks arbitrary: m)
  case Nil
  then show ?case by simp
next
  case (Cons a ks)
  let ?m' = "case m a of None \<Rightarrow> m | Some u \<Rightarrow> fileSecondary u m"
  have keep: "?m' k0 = Some v"
    using Cons.prems(2) by (simp add: fileSecondary_keeps split: option.split)
  show ?case
  proof (cases "a = k0")
    case True
    then have "?m' k \<noteq> None"
      using Cons.prems(2,3)
      by (auto simp: fileSecondary_apply secondaryKeys_def split: option.split)
    then obtain w where "?m' k = Some w"
      by blast
    then have "rangeSecondary ks ?m' k = Some w"
      by (rule rangeSecondary_keeps)
    then show ?thesis by simp
  next
    case False
    then have "k0 \<in> set ks"
      using Cons.prems(1) by simp
    from Cons.IH [of ?m', OF this keep Cons.prems(3)] show ?thesis
      by simp
  qed
qed

lemma dupIndex_free: "dupIndex ''2'' = None"
  by (simp add: dupIndex_def)

lemma rangeSecondary_dup_ab:
  "rangeSecondary [''a'', ''b''] dupIndex ''2'' = Some (newDsVal exPlugins dupA)"
  by (simp add: dupIndex_def fileSecondary_def Let_def value_defs dupA_def dupB_def)

lemma rangeSecondary_dup_ba:
  "rangeSecondary [''b'', ''a''] dupIndex ''2'' = Some (newDsVal exPlugins dupB)"
  by (simp add: dupIndex_def fileSecondary_def Let_def value_defs dupA_def dupB_def)

text \<open>
  Claim C8. The pass never replaces an entry: whatever the index holds under a key
  before the pass, or at any moment of it, it holds under that key at the end, for every
  order of visits. One visit files its descriptor under the stringified internal id and
  under the name exactly where the index held nothing, and changes no other key. So the
  first descriptor filed under a secondary key keeps it, and the entries filed by uid
  before the pass are all kept.
\<close>

theorem secondary_first_writer_wins:
  "(m k = Some v \<longrightarrow> rangeSecondary ks m k = Some v) \<and>
   fileSecondary d m k =
     (case m k of
        Some v' \<Rightarrow> Some v'
      | None \<Rightarrow> if k = sprintf_d (InternalID d) \<or> k = Name d then Some d else None)"
  by (simp add: rangeSecondary_keeps fileSecondary_apply)

theorem secondary_first_writer_wins_witness:
  "fileSecondary (newDsVal exPlugins dupA) dupIndex ''2'' = Some (newDsVal exPlugins dupA) \<and>
   rangeSecondary [''b'', ''a''] (fileSecondary (newDsVal exPlugins dupA) dupIndex) ''2'' =
     Some (newDsVal exPlugins dupA) \<and>
   rangeSecondary [''b'', ''a''] dupIndex ''2'' = Some (newDsVal exPlugins dupB)"
proof -
  have n: "Name (newDsVal exPlugins dupA) = ''2''"
    by (simp add: newDsVal_def dupA_def)
  from secondary_first_writer_wins [of dupIndex "''2''" _ _ "newDsVal exPlugins dupA"]
  have a: "fileSecondary (newDsVal exPlugins dupA) dupIndex ''2'' = Some (newDsVal exPlugins dupA)"
    by (simp add: dupIndex_free n)
  from secondary_first_writer_wins
    [of "fileSecondary (newDsVal exPlugins dupA) dupIndex" "''2''" "newDsVal exPlugins dupA"
      "[''b'', ''a'']"] a
  have "rangeSecondary [''b'', ''a''] (fileSecondary (newDsVal exPlugins dupA) dupIndex) ''2'' =
      Some (newDsVal exPlugins dupA)"
    by simp
  with a rangeSecondary_dup_ba show ?thesis
    by simp
qed

text \<open>
  With every key of the index visited and no two of its descriptors competing for a
  secondary key, the pass has one result, whatever the order of the visits.
\<close>

lemma rangeSecondary_order:
  assumes d1: "dom m \<subseteq> set ks1" and d2: "dom m \<subseteq> set ks2"
    and cf: "\<And>k1 k2 v1 v2 k. m k1 = Some v1 \<Longrightarrow> m k2 = Some v2 \<Longrightarrow>
               k \<in> secondaryKeys v1 \<Longrightarrow> k \<in> secondaryKeys v2 \<Longrightarrow> v1 = v2"
  shows "rangeSecondary ks1 m = rangeSecondary ks2 m"
proof -
  have one: "rangeSecondary ksb m k = Some v"
    if r: "rangeSecondary ksa m k = Some v" and db: "dom m \<subseteq> set ksb" for ksa ksb k v
  proof -
    from rangeSecondary_origin [OF r]
    consider "m k = Some v" | k' where "m k' = Some v" "k \<in> secondaryKeys v"
      by blast
    then show ?thesis
    proof cases
      case 1
      then show ?thesis by (rule rangeSecondary_keeps)
    next
      case 2
      then have "k' \<in> set ksb"
        using db by blast
      from rangeSecondary_files [where m = m, OF this 2(1) 2(2)]
      obtain w where w: "rangeSecondary ksb m k = Some w"
        by blast
      from rangeSecondary_origin [OF w]
      consider "m k = Some w" | k'' where "m k'' = Some w" "k \<in> secondaryKeys w"
        by blast
      then have "w = v"
      proof cases
        case 1
        then have "rangeSecondary ksa m k = Some w"
          by (rule rangeSecondary_keeps)
        with r show ?thesis by simp
      next
        case 2
        note b = this
        from cf [OF b(1) \<open>m k' = Some v\<close> b(2) \<open>k \<in> secondaryKeys v\<close>] show ?thesis .
      qed
      with w show ?thesis by simp
    qed
  qed
  show ?thesis
  proof (rule ext)
    fix k
    show "rangeSecondary ks1 m k = rangeSecondary ks2 m k"
    proof (cases "rangeSecondary ks1 m k")
      case None
      show ?thesis
      proof (cases "rangeSecondary ks2 m k")
        case None
        with \<open>rangeSecondary ks1 m k = None\<close> show ?thesis by simp
      next
        case (Some w)
        from one [OF Some d1] \<open>rangeSecondary ks1 m k = None\<close> show ?thesis by simp
      qed
    next
      case (Some v)
      from one [OF Some d2] Some show ?thesis by simp
    qed
  qed
qed

subsection \<open>The loop over the catalog\<close>

lemma fileByUID_Cons:
  "fileByUID plugin (d # rest) (cm, dm) =
     fileByUID plugin rest
       (cm(ds_OrgId d \<mapsto>
          (case cm (ds_OrgId d) of None \<Rightarrow> Map.empty | Some m \<Rightarrow> m)(ds_Uid d \<mapsto> newDsVal plugin d)),
        if ds_IsDefault d then dm(ds_OrgId d \<mapsto> newDsVal plugin d) else dm)"
  by (simp add: Let_def newDsVal_def)

lemma fileByUID_tenants:
  "(fst (fileByUID plugin rs (cm, dm)) orgID = None) =
     (cm orgID = None \<and> orgID \<notin> ds_OrgId ` set rs)"
proof (induction rs arbitrary: cm dm)
  case Nil
  then show ?case by simp
next
  case (Cons d rest)
  show ?case
    unfolding fileByUID_Cons Cons.IH by auto
qed

lemma fileByUID_entries:
  "fst (fileByUID plugin rs (cm, dm)) orgID = Some m \<Longrightarrow> m k = Some v \<Longrightarrow>
   (\<exists>d\<in>set rs. ds_OrgId d = orgID \<and> ds_Uid d = k \<and> v = newDsVal plugin d) \<or>
   (\<exists>m0. cm orgID = Some m0 \<and> m0 k = Some v)"
proof (induction rs arbitrary: cm dm)
  case Nil
  then show ?case by simp
next
  case (Cons d rest)
  let ?cm = "cm(ds_OrgId d \<mapsto>
      (case cm (ds_OrgId d) of None \<Rightarrow> Map.empty | Some m \<Rightarrow> m)(ds_Uid d \<mapsto> newDsVal plugin d))"
  let ?dm = "if ds_IsDefault d then dm(ds_OrgId d \<mapsto> newDsVal plugin d) else dm"
  from Cons.prems(1) have "fst (fileByUID plugin rest (?cm, ?dm)) orgID = Some m"
    by (simp only: fileByUID_Cons)
  from Cons.IH [OF this Cons.prems(2)]
  consider d' where "d' \<in> set rest" "ds_OrgId d' = orgID" "ds_Uid d' = k" "v = newDsVal plugin d'"
    | m0 where "?cm orgID = Some m0" "m0 k = Some v"
    by blast
  then show ?case
  proof cases
    case 1
    then show ?thesis by auto
  next
    case 2
    then show ?thesis
      by (cases "ds_OrgId d = orgID") (auto split: option.splits if_splits)
  qed
qed

lemma catalogDefault_Cons:
  "catalogDefault plugin orgID (d # rest) =
     (case catalogDefault plugin orgID rest of
        Some v \<Rightarrow> Some v
      | None \<Rightarrow> if ds_OrgId d = orgID \<and> ds_IsDefault d then Some (newDsVal plugin d) else None)"
  by (simp add: catalogDefault_def split: list.split)

lemma fileByUID_default:
  "snd (fileByUID plugin rs (cm, dm)) orgID =
     (case catalogDefault plugin orgID rs of None \<Rightarrow> dm orgID | Some v \<Rightarrow> Some v)"
proof (induction rs arbitrary: cm dm)
  case Nil
  then show ?case by (simp add: catalogDefault_def)
next
  case (Cons d rest)
  show ?case
    unfolding fileByUID_Cons Cons.IH catalogDefault_Cons
    by (simp split: option.split)
qed

subsection \<open>The stringified internal id\<close>

lemma digit_range: "n < 10 \<Longrightarrow> digit n \<in> set ''0123456789''"
  unfolding digit_def by (rule nth_mem) simp

lemma decimal_small: "n < 10 \<Longrightarrow> decimal n = [digit n]"
  by (subst decimal.simps) simp

lemma decimal_large: "\<not> n < 10 \<Longrightarrow> decimal n = decimal (n div 10) @ [digit (n mod 10)]"
  by (subst decimal.simps) simp

lemma decimal_in:
  assumes "\<And>k. k < 10 \<Longrightarrow> digit k \<in> S"
  shows "set (decimal n) \<subseteq> S"
proof (induction n rule: decimal.induct)
  case (1 n)
  show ?case
  proof (cases "n < 10")
    case True
    then show ?thesis
      using assms [of n] by (simp add: decimal_small)
  next
    case False
    have "digit (n mod 10) \<in> S"
      by (rule assms) simp
    moreover have "set (decimal (n div 10)) \<subseteq> S"
      using False by (rule 1)
    ultimately show ?thesis
      by (simp add: decimal_large [OF False])
  qed
qed

lemma decimal_chars: "set (decimal n) \<subseteq> set ''0123456789''"
  by (rule decimal_in) (rule digit_range)

lemma sprintf_d_chars: "set (sprintf_d w) \<subseteq> insert CHR ''-'' (set ''0123456789'')"
proof (cases "sint w < 0")
  case True
  then have "sprintf_d w = CHR ''-'' # decimal (nat (- sint w))"
    unfolding sprintf_d_def by (simp only: if_True)
  moreover have "set (CHR ''-'' # decimal (nat (- sint w))) \<subseteq>
      insert CHR ''-'' (set ''0123456789'')"
    using decimal_chars [of "nat (- sint w)"] by (simp only: list.set) (rule insert_mono)
  ultimately show ?thesis
    by (simp only:)
next
  case False
  then have "sprintf_d w = decimal (nat (sint w))"
    unfolding sprintf_d_def by (simp only: if_False)
  moreover have "set (decimal (nat (sint w))) \<subseteq> insert CHR ''-'' (set ''0123456789'')"
    using decimal_chars [of "nat (sint w)"] by (rule subset_insertI2)
  ultimately show ?thesis
    by (simp only:)
qed

lemma sprintf_d_not_default: "sprintf_d w \<noteq> ''default''"
proof
  assume "sprintf_d w = ''default''"
  then have "CHR ''d'' \<in> set (sprintf_d w)"
    by simp
  then have "CHR ''d'' \<in> insert CHR ''-'' (set ''0123456789'')"
    using sprintf_d_chars by (rule rev_subsetD)
  then show False
    by simp
qed


subsection \<open>The built snapshot\<close>

lemma check_locked_ok:
  "GetAllDataSources (ds c) = Inr rs \<Longrightarrow>
   check_locked e (timestamp c) c =
     (None, c\<lparr>ds := (ds c)\<lparr>calls := calls (ds c) + 1\<rparr>,
              cache := Some (build (DatasourceUID e) (rangeKeys e) (pluginRegistry c) rs),
              timestamp := getNow_check e\<rparr>)"
  by (simp add: check_locked_def)

lemma build_tenants: "(build G keys plugin rs orgID = None) = (orgID \<notin> ds_OrgId ` set rs)"
proof -
  obtain cm dm where f: "fileByUID plugin rs (Map.empty, Map.empty) = (cm, dm)"
    by (cases "fileByUID plugin rs (Map.empty, Map.empty)")
  have "(cm orgID = None) = (orgID \<notin> ds_OrgId ` set rs)"
    using fileByUID_tenants [of plugin rs Map.empty Map.empty orgID] f by simp
  then show ?thesis
    by (auto simp: build_def indexOrgs_def f split: option.split)
qed

lemma build_tenant:
  assumes "orgID \<in> ds_OrgId ` set rs"
  obtains m0 where "fst (fileByUID plugin rs (Map.empty, Map.empty)) orgID = Some m0"
    and "build G keys plugin rs orgID =
      Some (fileDefault G (catalogDefault plugin orgID rs) (rangeSecondary (keys orgID) m0))"
proof -
  from assms obtain m0 where m0: "fst (fileByUID plugin rs (Map.empty, Map.empty)) orgID = Some m0"
    using fileByUID_tenants [of plugin rs Map.empty Map.empty orgID] by auto
  have "snd (fileByUID plugin rs (Map.empty, Map.empty)) orgID = catalogDefault plugin orgID rs"
    by (simp add: fileByUID_default split: option.split)
  with m0 have "build G keys plugin rs orgID =
      Some (fileDefault G (catalogDefault plugin orgID rs) (rangeSecondary (keys orgID) m0))"
    by (simp add: build_def indexOrgs_def)
  with m0 show ?thesis
    by (rule that)
qed

lemma fileDefault_builtin: "G \<noteq> [] \<Longrightarrow> fileDefault G dflt m G = Some (gds G)"
  by (simp add: fileDefault_def Let_def)

lemma fileDefault_empty:
  "fileDefault G dflt m [] = Some (case dflt of None \<Rightarrow> gds G | Some v \<Rightarrow> v)"
  by (simp add: fileDefault_def Let_def)

lemma fileDefault_default_free:
  "m ''default'' = None \<Longrightarrow> G \<noteq> ''default'' \<Longrightarrow>
   fileDefault G dflt m ''default'' = Some (case dflt of None \<Rightarrow> gds G | Some v \<Rightarrow> v)"
  by (simp add: fileDefault_def Let_def)

lemma fileDefault_default_taken:
  "m ''default'' = Some v \<Longrightarrow> G \<noteq> ''default'' \<Longrightarrow> fileDefault G dflt m ''default'' = Some v"
  by (simp add: fileDefault_def Let_def)

lemma build_builtin:
  assumes "orgID \<in> ds_OrgId ` set rs" and "G \<noteq> []"
  shows "lookupDS (Some (build G keys plugin rs)) orgID G = Some (gds G)"
proof -
  from assms(1) obtain m0 where
    "build G keys plugin rs orgID =
      Some (fileDefault G (catalogDefault plugin orgID rs) (rangeSecondary (keys orgID) m0))"
    by (rule build_tenant)
  then show ?thesis
    using assms(2) by (simp add: lookupDS_def fileDefault_builtin)
qed

lemma build_empty_key:
  assumes "orgID \<in> ds_OrgId ` set rs"
  shows "lookupDS (Some (build G keys plugin rs)) orgID [] = Some (expectedDefault G plugin orgID rs)"
proof -
  from assms(1) obtain m0 where
    "build G keys plugin rs orgID =
      Some (fileDefault G (catalogDefault plugin orgID rs) (rangeSecondary (keys orgID) m0))"
    by (rule build_tenant)
  then show ?thesis
    by (simp add: lookupDS_def fileDefault_empty expectedDefault_def)
qed

lemma build_default_key:
  assumes t: "orgID \<in> ds_OrgId ` set rs" and G: "G \<noteq> ''default''"
    and free: "\<And>d. d \<in> set rs \<Longrightarrow> ds_OrgId d = orgID \<Longrightarrow>
                 ds_Uid d \<noteq> ''default'' \<and> ds_Name d \<noteq> ''default''"
  shows "lookupDS (Some (build G keys plugin rs)) orgID ''default'' =
           Some (expectedDefault G plugin orgID rs)"
proof -
  from t obtain m0 where m0: "fst (fileByUID plugin rs (Map.empty, Map.empty)) orgID = Some m0"
    and b: "build G keys plugin rs orgID =
      Some (fileDefault G (catalogDefault plugin orgID rs) (rangeSecondary (keys orgID) m0))"
    by (rule build_tenant)
  have rec: "\<exists>d\<in>set rs. ds_OrgId d = orgID \<and> ds_Uid d = k \<and> v = newDsVal plugin d"
    if "m0 k = Some v" for k v
    using fileByUID_entries [OF m0 that] by simp
  have "rangeSecondary (keys orgID) m0 ''default'' = None"
  proof (rule ccontr)
    assume "rangeSecondary (keys orgID) m0 ''default'' \<noteq> None"
    then obtain v where "rangeSecondary (keys orgID) m0 ''default'' = Some v"
      by blast
    from rangeSecondary_origin [OF this]
    consider "m0 ''default'' = Some v" | k' where "m0 k' = Some v" "''default'' \<in> secondaryKeys v"
      by blast
    then show False
    proof cases
      case 1
      from rec [OF this] free show False by blast
    next
      case 2
      from rec [OF 2(1)] obtain d where d: "d \<in> set rs" "ds_OrgId d = orgID" "v = newDsVal plugin d"
        by blast
      from 2(2) have "sprintf_d (ds_Id d) = ''default'' \<or> ds_Name d = ''default''"
        unfolding secondaryKeys_def d(3) newDsVal_def by auto
      with free [OF d(1,2)] sprintf_d_not_default show False
        by blast
    qed
  qed
  then show ?thesis
    using b G by (simp add: lookupDS_def fileDefault_default_free expectedDefault_def)
qed


lemma getDS_state_uid: "snd (getDS e orgID uid c) = snd (getDS e orgID' uid' c)"
  by (simp add: getDS_state)

lemma getDS_named_empty:
  "fst (getDS envNamed 1 [] coldNamed) = (Some (newDsVal exPlugins promDS), None)"
  by (simp add: run_defs envNamed_def coldNamed_def exEnv_def coldCache_def build_defs
      value_defs promDS_def namedDefault_def)

lemma getDS_named_default:
  "fst (getDS envNamed 1 ''default'' coldNamed) = (Some (newDsVal exPlugins namedDefault), None)"
  by (simp add: run_defs envNamed_def coldNamed_def exEnv_def coldCache_def build_defs
      value_defs promDS_def namedDefault_def)

lemma getDS_cold_builtin:
  "fst (getDS exEnv 1 ''grafana'' coldCache) = (Some (gds ''grafana''), None)"
  by (simp add: getDS_stale [OF stale_coldCache] check_coldCache lookupDS_def build_prom)

lemma expectedDefault_prom:
  "expectedDefault ''grafana'' exPlugins 1 [promDS] = newDsVal exPlugins promDS"
  by (simp add: expectedDefault_def catalogDefault_def promDS_def)

lemma build_no_tenant:
  "orgID \<notin> ds_OrgId ` set rs \<Longrightarrow> lookupDS (Some (build G keys plugin rs)) orgID uid = None"
  using build_tenants [of G keys plugin rs orgID] by (simp add: lookupDS_def)

lemma build_default_kept:
  assumes "filedBeforeDefault keys plugin rs orgID ''default'' = Some v" and "G \<noteq> ''default''"
  shows "lookupDS (Some (build G keys plugin rs)) orgID ''default'' = Some v"
proof -
  from assms(1) obtain m0 where
    m0: "fst (fileByUID plugin rs (Map.empty, Map.empty)) orgID = Some m0"
    and r: "rangeSecondary (keys orgID) m0 ''default'' = Some v"
    by (auto simp: filedBeforeDefault_def split: option.splits)
  have "build G keys plugin rs orgID =
      Some (fileDefault G (snd (fileByUID plugin rs (Map.empty, Map.empty)) orgID)
        (rangeSecondary (keys orgID) m0))"
    using m0 by (simp add: build_def indexOrgs_def)
  then show ?thesis
    using r assms(2) by (simp add: lookupDS_def fileDefault_default_taken)
qed

lemma filedBeforeDefault_record:
  assumes "filedBeforeDefault keys plugin rs orgID ''default'' = Some v"
  shows "\<exists>d\<in>set rs. ds_OrgId d = orgID \<and> v = newDsVal plugin d \<and>
           (ds_Uid d = ''default'' \<or> ds_Name d = ''default'')"
proof -
  from assms obtain m0 where
    m0: "fst (fileByUID plugin rs (Map.empty, Map.empty)) orgID = Some m0"
    and r: "rangeSecondary (keys orgID) m0 ''default'' = Some v"
    by (auto simp: filedBeforeDefault_def split: option.splits)
  have rec: "\<exists>d\<in>set rs. ds_OrgId d = orgID \<and> ds_Uid d = k \<and> w = newDsVal plugin d"
    if "m0 k = Some w" for k w
    using fileByUID_entries [OF m0 that] by simp
  from rangeSecondary_origin [OF r]
  consider "m0 ''default'' = Some v" | k' where "m0 k' = Some v" "''default'' \<in> secondaryKeys v"
    by blast
  then show ?thesis
  proof cases
    case 1
    from rec [OF this] show ?thesis by blast
  next
    case 2
    from rec [OF 2(1)] obtain d where
      d: "d \<in> set rs" "ds_OrgId d = orgID" "v = newDsVal plugin d"
      by blast
    from 2(2) have "sprintf_d (ds_Id d) = ''default'' \<or> ds_Name d = ''default''"
      unfolding secondaryKeys_def d(3) newDsVal_def by auto
    with sprintf_d_not_default have "ds_Name d = ''default''"
      by blast
    with d show ?thesis by blast
  qed
qed

lemma build_default_free:
  assumes "orgID \<in> ds_OrgId ` set rs" and "filedBeforeDefault keys plugin rs orgID ''default'' = None"
    and "G \<noteq> ''default''"
  shows "lookupDS (Some (build G keys plugin rs)) orgID ''default'' =
           Some (expectedDefault G plugin orgID rs)"
proof -
  from assms(1) obtain m0 where m0: "fst (fileByUID plugin rs (Map.empty, Map.empty)) orgID = Some m0"
    and b: "build G keys plugin rs orgID =
      Some (fileDefault G (catalogDefault plugin orgID rs) (rangeSecondary (keys orgID) m0))"
    by (rule build_tenant)
  from assms(2) m0 have "rangeSecondary (keys orgID) m0 ''default'' = None"
    by (simp add: filedBeforeDefault_def)
  then show ?thesis
    using b assms(3) by (simp add: lookupDS_def fileDefault_default_free expectedDefault_def)
qed

lemma filedBeforeDefault_named:
  "filedBeforeDefault (\<lambda>orgID. [''abc'', ''x'']) exPlugins [promDS, namedDefault] 1 ''default'' =
     Some (newDsVal exPlugins namedDefault)"
  by (simp add: filedBeforeDefault_def fileSecondary_def Let_def value_defs promDS_def
      namedDefault_def)

lemma getDS_named_state:
  "cache (snd (getDS envNamed orgID uid coldNamed)) =
     Some (build ''grafana'' (\<lambda>orgID. [''abc'', ''x'']) exPlugins [promDS, namedDefault])"
  by (simp add: getDS_state stale_def check_def check_locked_def envNamed_def coldNamed_def
      exEnv_def coldCache_def)


lemma expectedDefault_named:
  "expectedDefault ''grafana'' exPlugins 1 [promDS, namedDefault] = newDsVal exPlugins promDS"
  by (simp add: expectedDefault_def catalogDefault_def promDS_def namedDefault_def)

lemma getDS_refresh_snapshot:
  "stale e c \<Longrightarrow> timestamp (waitLock e c) = timestamp c \<Longrightarrow>
   GetAllDataSources (ds (waitLock e c)) = Inr rs \<Longrightarrow>
   cache (snd (getDS e orgID uid c)) =
     Some (build (DatasourceUID e) (rangeKeys e) (pluginRegistry (waitLock e c)) rs)"
  by (simp add: getDS_state check_def check_locked_def)

subsection \<open>Tenants and the built-in descriptor\<close>

text \<open>
  Claim C2, as stated, fails. After a successful refresh from a catalog that reports
  records for tenant 1 only, tenant 2 has no index, and \<open>getDS\<close> for tenant 2 and the
  empty identifier returns \<open>(nil, nil)\<close>, not the built-in descriptor.
\<close>

theorem getDS_tenant_without_records:
  "GetAllDataSources (ds coldCache) = Inr [promDS] \<and>
   fst (check exEnv coldCache) = None \<and>
   (\<exists>cm. cache (snd (check exEnv coldCache)) = Some cm \<and> cm 2 = None) \<and>
   fst (getDS exEnv 2 [] coldCache) = (None, None)"
  by (simp add: check_coldCache getDS_cold_unknown_tenant) (simp add: build_prom coldCache_def)

text \<open>
  Claim C2, amended. A successful refresh publishes the snapshot \<open>build\<close> of the catalog
  result. In it exactly the tenants with at least one catalog record have an index; each
  of these indices holds the built-in descriptor under the built-in uid (a non-empty
  string); and for a tenant without catalog records every \<open>getDS\<close> served from this
  snapshot returns a \<open>nil\<close> descriptor.
\<close>

theorem refresh_files_builtin_per_catalog_tenant:
  assumes "GetAllDataSources (ds c) = Inr rs"
    and "cm = build (DatasourceUID e) (rangeKeys e) (pluginRegistry c) rs"
  shows "cache (snd (check_locked e (timestamp c) c)) = Some cm \<and>
         (cm orgID = None) = (orgID \<notin> ds_OrgId ` set rs) \<and>
         (orgID \<in> ds_OrgId ` set rs \<and> DatasourceUID e \<noteq> [] \<longrightarrow>
            lookupDS (Some cm) orgID (DatasourceUID e) = Some (gds (DatasourceUID e))) \<and>
         (orgID \<notin> ds_OrgId ` set rs \<longrightarrow>
            (\<forall>e' c0 uid. cache (snd (getDS e' orgID uid c0)) = Some cm \<longrightarrow>
               fst (fst (getDS e' orgID uid c0)) = None))"
proof -
  have a: "cache (snd (check_locked e (timestamp c) c)) = Some cm"
    using assms by (simp add: check_locked_ok)
  have b: "(cm orgID = None) = (orgID \<notin> ds_OrgId ` set rs)"
    unfolding assms(2) by (rule build_tenants)
  have c: "lookupDS (Some cm) orgID (DatasourceUID e) = Some (gds (DatasourceUID e))"
    if "orgID \<in> ds_OrgId ` set rs" "DatasourceUID e \<noteq> []"
    unfolding assms(2) using that by (rule build_builtin)
  have d: "fst (fst (getDS e' orgID uid c0)) = None"
    if "orgID \<notin> ds_OrgId ` set rs" "cache (snd (getDS e' orgID uid c0)) = Some cm" for e' c0 uid
    using that b by (simp add: getDS_descriptor lookupDS_def)
  from a b c d show ?thesis
    by blast
qed

theorem refresh_files_builtin_per_catalog_tenant_witness:
  "GetAllDataSources (ds coldCache) = Inr [promDS] \<and>
   lookupDS (cache (snd (check_locked exEnv (timestamp coldCache) coldCache))) 1 ''grafana'' =
     Some (gds ''grafana'') \<and>
   lookupDS (cache (snd (check_locked exEnv (timestamp coldCache) coldCache))) 2 ''grafana'' = None \<and>
   fst (fst (getDS exEnv 2 [] coldCache)) = None"
proof -
  have a: "GetAllDataSources (ds coldCache) = Inr [promDS]"
    by (simp add: coldCache_def)
  have k: "rangeKeys exEnv = (\<lambda>orgID. [''abc''])" "pluginRegistry coldCache = exPlugins"
    by (simp_all add: exEnv_def coldCache_def)
  have o1: "(1::64 word) \<in> ds_OrgId ` set [promDS]" and o2: "(2::64 word) \<notin> ds_OrgId ` set [promDS]"
    by (simp_all add: promDS_def)
  have g: "DatasourceUID exEnv = ''grafana''"
    by (simp add: exEnv_def)
  from refresh_files_builtin_per_catalog_tenant [OF a refl, of exEnv 1] o1
  have one: "cache (snd (check_locked exEnv (timestamp coldCache) coldCache)) =
      Some (build ''grafana'' (\<lambda>orgID. [''abc'']) exPlugins [promDS])"
    "lookupDS (Some (build ''grafana'' (\<lambda>orgID. [''abc'']) exPlugins [promDS])) 1 ''grafana'' =
      Some (gds ''grafana'')"
    by (simp_all add: k g)
  from refresh_files_builtin_per_catalog_tenant [OF a refl, of exEnv 2] o2
  have two: "build ''grafana'' (\<lambda>orgID. [''abc'']) exPlugins [promDS] 2 = None"
    "\<forall>e' c0 uid. cache (snd (getDS e' 2 uid c0)) =
        Some (build ''grafana'' (\<lambda>orgID. [''abc'']) exPlugins [promDS]) \<longrightarrow>
      fst (fst (getDS e' 2 uid c0)) = None"
    by (simp_all add: k g)
  from two(2) getDS_cold_state [of 2 "[]"] have "fst (fst (getDS exEnv 2 [] coldCache)) = None"
    by blast
  with a one two(1) show ?thesis
    by (simp add: lookupDS_def)
qed

text \<open>
  Claim C5, as stated, fails: with a catalog that reports records for tenant 1 only,
  \<open>getDS\<close> for tenant 2 and the built-in uid returns \<open>(nil, nil)\<close>.
\<close>

theorem getDS_builtin_unknown_tenant:
  "GetAllDataSources (ds coldCache) = Inr [promDS] \<and>
   DatasourceUID exEnv = ''grafana'' \<and>
   fst (getDS exEnv 2 (DatasourceUID exEnv) coldCache) = (None, None)"
  by (simp add: getDS_cold_unknown_tenant) (simp add: coldCache_def exEnv_def)

text \<open>
  Claim C5, amended. Take a \<open>getDS\<close> for the built-in uid (a non-empty string) that is
  served from a snapshot built from a catalog, as every successful refresh publishes one
  (\<open>getDS_refresh_snapshot\<close>). For every tenant with at least one record in that
  catalog, whatever else the catalog holds, it returns the built-in descriptor, whose
  \<open>PluginExists\<close> is true. For a tenant without a record in that catalog it returns a
  \<open>nil\<close> descriptor.
\<close>

theorem getDS_builtin:
  assumes "cache (snd (getDS e orgID G c)) = Some (build G keys plugin rs)" and "G \<noteq> []"
  shows "(orgID \<in> ds_OrgId ` set rs \<longrightarrow> fst (fst (getDS e orgID G c)) = Some (gds G)) \<and>
         PluginExists (gds G) \<and>
         (orgID \<notin> ds_OrgId ` set rs \<longrightarrow> fst (fst (getDS e orgID G c)) = None)"
proof -
  have d: "fst (fst (getDS e orgID G c)) = lookupDS (Some (build G keys plugin rs)) orgID G"
    using assms(1) by (simp add: getDS_descriptor)
  have a: "fst (fst (getDS e orgID G c)) = Some (gds G)" if "orgID \<in> ds_OrgId ` set rs"
    unfolding d using that assms(2) by (rule build_builtin)
  have b: "fst (fst (getDS e orgID G c)) = None" if "orgID \<notin> ds_OrgId ` set rs"
    unfolding d using that by (rule build_no_tenant)
  have "PluginExists (gds G)"
    by (simp add: gds_def)
  with a b show ?thesis
    by blast
qed

theorem getDS_builtin_witness:
  "cache (snd (getDS exEnv 1 ''grafana'' coldCache)) =
     Some (build ''grafana'' (\<lambda>orgID. [''abc'']) exPlugins [promDS]) \<and>
   (1::64 word) \<in> ds_OrgId ` set [promDS] \<and>
   fst (fst (getDS exEnv 1 ''grafana'' coldCache)) = Some (gds ''grafana'') \<and>
   PluginExists (gds ''grafana'') \<and>
   (2::64 word) \<notin> ds_OrgId ` set [promDS] \<and>
   fst (fst (getDS exEnv 2 ''grafana'' coldCache)) = None"
proof -
  have o: "(1::64 word) \<in> ds_OrgId ` set [promDS]" "(2::64 word) \<notin> ds_OrgId ` set [promDS]"
    by (simp_all add: promDS_def)
  have n: "''grafana'' \<noteq> []"
    by simp
  from getDS_builtin [OF getDS_cold_state n, of 1] getDS_builtin [OF getDS_cold_state n, of 2]
    getDS_cold_state o
  show ?thesis
    by simp
qed

subsection \<open>The default descriptor\<close>

text \<open>
  Claim C4, as stated, fails. Tenant 1 has a record marked default and another record
  named \<open>default\<close>: the empty identifier resolves to the first, the identifier
  \<open>default\<close> to the second, since line 106 leaves a key already filed alone.
\<close>

theorem getDS_default_key_taken:
  "fst (getDS envNamed 1 [] coldNamed) = (Some (newDsVal exPlugins promDS), None) \<and>
   fst (getDS envNamed 1 ''default'' coldNamed) = (Some (newDsVal exPlugins namedDefault), None) \<and>
   fst (getDS envNamed 1 [] coldNamed) \<noteq> fst (getDS envNamed 1 ''default'' coldNamed)"
  by (simp add: getDS_named_empty getDS_named_default)
    (simp add: newDsVal_def promDS_def namedDefault_def)

text \<open>
  Claim C4, amended. Take a \<open>getDS\<close> that is served from a snapshot built from a
  catalog. For a tenant with at least one record in that catalog, the empty identifier
  resolves to the descriptor of the tenant's last record marked default, or to the
  built-in descriptor when no record is marked. With a built-in uid other than
  \<open>default\<close>, the identifier \<open>default\<close> resolves to the same descriptor when the key
  \<open>default\<close> is free at the end of the secondary pass, as it is when no record of the
  tenant has the uid or the name \<open>default\<close>; and when that key is already filed, the
  entry is kept: \<open>default\<close> resolves to it, and it is the descriptor of a record of the
  tenant whose uid or name is \<open>default\<close>. For a tenant without a record in that catalog
  both identifiers resolve to a \<open>nil\<close> descriptor.
\<close>

theorem getDS_default:
  assumes "cache (snd (getDS e orgID [] c)) = Some (build G keys plugin rs)"
  shows "(orgID \<in> ds_OrgId ` set rs \<longrightarrow>
            fst (fst (getDS e orgID [] c)) = Some (expectedDefault G plugin orgID rs)) \<and>
         (orgID \<in> ds_OrgId ` set rs \<and> G \<noteq> ''default'' \<and>
          filedBeforeDefault keys plugin rs orgID ''default'' = None \<longrightarrow>
            fst (fst (getDS e orgID ''default'' c)) = Some (expectedDefault G plugin orgID rs)) \<and>
         (orgID \<in> ds_OrgId ` set rs \<and> G \<noteq> ''default'' \<and>
          (\<forall>d\<in>set rs. ds_OrgId d = orgID \<longrightarrow>
             ds_Uid d \<noteq> ''default'' \<and> ds_Name d \<noteq> ''default'') \<longrightarrow>
            fst (fst (getDS e orgID ''default'' c)) = Some (expectedDefault G plugin orgID rs)) \<and>
         (\<forall>v. G \<noteq> ''default'' \<and> filedBeforeDefault keys plugin rs orgID ''default'' = Some v \<longrightarrow>
            fst (fst (getDS e orgID ''default'' c)) = Some v \<and>
            (\<exists>d\<in>set rs. ds_OrgId d = orgID \<and> v = newDsVal plugin d \<and>
               (ds_Uid d = ''default'' \<or> ds_Name d = ''default''))) \<and>
         (orgID \<notin> ds_OrgId ` set rs \<longrightarrow>
            fst (fst (getDS e orgID [] c)) = None \<and>
            fst (fst (getDS e orgID ''default'' c)) = None)"
proof -
  have e: "fst (fst (getDS e orgID [] c)) = lookupDS (Some (build G keys plugin rs)) orgID []"
    using assms by (simp add: getDS_descriptor)
  have "cache (snd (getDS e orgID ''default'' c)) = Some (build G keys plugin rs)"
    using assms getDS_state_uid [of e orgID "''default''" c orgID "[]"] by simp
  then have d: "fst (fst (getDS e orgID ''default'' c)) =
      lookupDS (Some (build G keys plugin rs)) orgID ''default''"
    by (simp add: getDS_descriptor)
  have c1: "fst (fst (getDS e orgID [] c)) = Some (expectedDefault G plugin orgID rs)"
    if "orgID \<in> ds_OrgId ` set rs"
    unfolding e using that by (rule build_empty_key)
  have c2: "fst (fst (getDS e orgID ''default'' c)) = Some (expectedDefault G plugin orgID rs)"
    if "orgID \<in> ds_OrgId ` set rs" "G \<noteq> ''default''"
      "filedBeforeDefault keys plugin rs orgID ''default'' = None"
    unfolding d using that(1,3,2) by (rule build_default_free)
  have c3: "fst (fst (getDS e orgID ''default'' c)) = Some (expectedDefault G plugin orgID rs)"
    if "orgID \<in> ds_OrgId ` set rs" "G \<noteq> ''default''"
      "\<forall>d\<in>set rs. ds_OrgId d = orgID \<longrightarrow> ds_Uid d \<noteq> ''default'' \<and> ds_Name d \<noteq> ''default''"
    unfolding d using that(1,2)
  proof (rule build_default_key)
    fix d
    assume "d \<in> set rs" "ds_OrgId d = orgID"
    with that(3) show "ds_Uid d \<noteq> ''default'' \<and> ds_Name d \<noteq> ''default''"
      by blast
  qed
  have c4: "fst (fst (getDS e orgID ''default'' c)) = Some v \<and>
      (\<exists>d\<in>set rs. ds_OrgId d = orgID \<and> v = newDsVal plugin d \<and>
         (ds_Uid d = ''default'' \<or> ds_Name d = ''default''))"
    if "G \<noteq> ''default''" "filedBeforeDefault keys plugin rs orgID ''default'' = Some v" for v
    unfolding d using build_default_kept [OF that(2,1)] filedBeforeDefault_record [OF that(2)]
    by (rule conjI)
  have c5: "fst (fst (getDS e orgID [] c)) = None \<and> fst (fst (getDS e orgID ''default'' c)) = None"
    if "orgID \<notin> ds_OrgId ` set rs"
    unfolding e d using that by (simp add: build_no_tenant)
  from c1 c2 c3 c4 c5 show ?thesis
    by blast
qed

theorem getDS_default_witness:
  "cache (snd (getDS envNamed 1 [] coldNamed)) =
     Some (build ''grafana'' (\<lambda>orgID. [''abc'', ''x'']) exPlugins [promDS, namedDefault]) \<and>
   filedBeforeDefault (\<lambda>orgID. [''abc'', ''x'']) exPlugins [promDS, namedDefault] 1 ''default'' =
     Some (newDsVal exPlugins namedDefault) \<and>
   fst (fst (getDS envNamed 1 [] coldNamed)) = Some (newDsVal exPlugins promDS) \<and>
   fst (fst (getDS envNamed 1 ''default'' coldNamed)) = Some (newDsVal exPlugins namedDefault) \<and>
   cache (snd (getDS exEnv 1 [] coldCache)) =
     Some (build ''grafana'' (\<lambda>orgID. [''abc'']) exPlugins [promDS]) \<and>
   fst (fst (getDS exEnv 1 [] coldCache)) = Some (newDsVal exPlugins promDS) \<and>
   fst (fst (getDS exEnv 1 ''default'' coldCache)) = Some (newDsVal exPlugins promDS) \<and>
   fst (fst (getDS exEnv 2 ''default'' coldCache)) = None"
proof -
  have o: "(1::64 word) \<in> ds_OrgId ` set [promDS, namedDefault]"
    "(1::64 word) \<in> ds_OrgId ` set [promDS]" "(2::64 word) \<notin> ds_OrgId ` set [promDS]"
    by (simp_all add: promDS_def)
  have f: "\<forall>d\<in>set [promDS]. ds_OrgId d = 1 \<longrightarrow> ds_Uid d \<noteq> ''default'' \<and> ds_Name d \<noteq> ''default''"
    by (simp add: promDS_def)
  have n: "''grafana'' \<noteq> ''default''"
    by simp
  have p: "ds_OrgId promDS = 1"
    by (simp add: promDS_def)
  from getDS_default [OF getDS_named_state [of 1 "[]"]] o(1) n filedBeforeDefault_named
  have named: "fst (fst (getDS envNamed 1 [] coldNamed)) = Some (newDsVal exPlugins promDS)"
    "fst (fst (getDS envNamed 1 ''default'' coldNamed)) = Some (newDsVal exPlugins namedDefault)"
    by (simp_all add: expectedDefault_named p)
  from getDS_default [OF getDS_cold_state [of 1 "[]"]] o(2) n f
  have one: "fst (fst (getDS exEnv 1 [] coldCache)) = Some (newDsVal exPlugins promDS)"
    "fst (fst (getDS exEnv 1 ''default'' coldCache)) = Some (newDsVal exPlugins promDS)"
    by (simp_all add: expectedDefault_prom p)
  from getDS_default [OF getDS_cold_state [of 2 "[]"]] o(3)
  have two: "fst (fst (getDS exEnv 2 ''default'' coldCache)) = None"
    by (simp add: p)
  from named one two getDS_named_state [of 1 "[]"] getDS_cold_state [of 1 "[]"]
    filedBeforeDefault_named
  show ?thesis
    by simp
qed

subsection \<open>Rebuilding twice\<close>

lemma collisionFreeD:
  assumes "collisionFree rs" and "a \<in> set rs" and "b \<in> set rs"
    and "sprintf_d (ds_Id a) = sprintf_d (ds_Id b) \<or> sprintf_d (ds_Id a) = ds_Name b \<or>
         ds_Name a = sprintf_d (ds_Id b) \<or> ds_Name a = ds_Name b"
    and "ds_OrgId a = ds_OrgId b"
  shows "a = b"
proof -
  from assms(1) have "\<forall>d1\<in>set rs. \<forall>d2\<in>set rs.
      ds_OrgId d1 = ds_OrgId d2 \<and>
      (sprintf_d (ds_Id d1) = sprintf_d (ds_Id d2) \<or> sprintf_d (ds_Id d1) = ds_Name d2 \<or>
       ds_Name d1 = sprintf_d (ds_Id d2) \<or> ds_Name d1 = ds_Name d2) \<longrightarrow>
      d1 = d2"
    unfolding collisionFree_def .
  from bspec [OF bspec [OF this assms(2)] assms(3)]
  have imp: "ds_OrgId a = ds_OrgId b \<and>
      (sprintf_d (ds_Id a) = sprintf_d (ds_Id b) \<or> sprintf_d (ds_Id a) = ds_Name b \<or>
       ds_Name a = sprintf_d (ds_Id b) \<or> ds_Name a = ds_Name b) \<longrightarrow>
      a = b" .
  have "ds_OrgId a = ds_OrgId b \<and>
      (sprintf_d (ds_Id a) = sprintf_d (ds_Id b) \<or> sprintf_d (ds_Id a) = ds_Name b \<or>
       ds_Name a = sprintf_d (ds_Id b) \<or> ds_Name a = ds_Name b)"
    using assms(5) assms(4) by (rule conjI)
  with imp show ?thesis
    by (rule mp)
qed

lemma build_order:
  assumes cf: "collisionFree rs" and c1: "covers keys1 rs" and c2: "covers keys2 rs"
  shows "build G keys1 plugin rs = build G keys2 plugin rs"
proof (rule ext)
  fix orgID
  show "build G keys1 plugin rs orgID = build G keys2 plugin rs orgID"
  proof (cases "orgID \<in> ds_OrgId ` set rs")
    case False
    then show ?thesis
      using build_tenants [of G keys1 plugin rs orgID] build_tenants [of G keys2 plugin rs orgID]
      by simp
  next
    case True
    then obtain m0 where m0: "fst (fileByUID plugin rs (Map.empty, Map.empty)) orgID = Some m0"
      using fileByUID_tenants [of plugin rs Map.empty Map.empty orgID] by auto
    have rec: "\<exists>d\<in>set rs. ds_OrgId d = orgID \<and> ds_Uid d = k \<and> v = newDsVal plugin d"
      if "m0 k = Some v" for k v
      using fileByUID_entries [OF m0 that] by simp
    have dom1: "dom m0 \<subseteq> set (keys1 orgID)"
      using rec c1 unfolding covers_def by blast
    have dom2: "dom m0 \<subseteq> set (keys2 orgID)"
      using rec c2 unfolding covers_def by blast
    have same: "v1 = v2"
      if "m0 k1 = Some v1" "m0 k2 = Some v2" "k \<in> secondaryKeys v1" "k \<in> secondaryKeys v2"
      for k1 k2 v1 v2 k
    proof -
      from rec [OF that(1)] obtain a where
        a: "a \<in> set rs" "ds_OrgId a = orgID" "v1 = newDsVal plugin a"
        by blast
      from rec [OF that(2)] obtain b where
        b: "b \<in> set rs" "ds_OrgId b = orgID" "v2 = newDsVal plugin b"
        by blast
      from that(3) have ka: "k = sprintf_d (ds_Id a) \<or> k = ds_Name a"
        unfolding secondaryKeys_def a(3) newDsVal_def by auto
      from that(4) have kb: "k = sprintf_d (ds_Id b) \<or> k = ds_Name b"
        unfolding secondaryKeys_def b(3) newDsVal_def by auto
      from ka kb have "sprintf_d (ds_Id a) = sprintf_d (ds_Id b) \<or>
          sprintf_d (ds_Id a) = ds_Name b \<or> ds_Name a = sprintf_d (ds_Id b) \<or>
          ds_Name a = ds_Name b"
        by auto
      moreover have "ds_OrgId a = ds_OrgId b"
        using a(2) b(2) by simp
      ultimately have "a = b"
        using collisionFreeD [OF cf a(1) b(1)] by (simp only:)
      with a(3) b(3) show ?thesis by simp
    qed
    have "rangeSecondary (keys1 orgID) m0 = rangeSecondary (keys2 orgID) m0"
      using dom1 dom2 same by (rule rangeSecondary_order)
    then show ?thesis
      using m0 by (simp add: build_def indexOrgs_def)
  qed
qed

lemma dup_lookup_ab:
  "lookupDS (Some (build ''grafana'' (\<lambda>orgID. [''a'', ''b'']) exPlugins [dupA, dupB])) 1 ''2'' =
     Some (newDsVal exPlugins dupA)"
  by (simp add: lookupDS_def build_defs value_defs dupA_def dupB_def)

lemma dup_lookup_ba:
  "lookupDS (Some (build ''grafana'' (\<lambda>orgID. [''b'', ''a'']) exPlugins [dupA, dupB])) 1 ''2'' =
     Some (newDsVal exPlugins dupB)"
  by (simp add: lookupDS_def build_defs value_defs dupA_def dupB_def)

lemma dup_values: "newDsVal exPlugins dupA \<noteq> newDsVal exPlugins dupB"
  by (simp add: newDsVal_def dupA_def dupB_def)

text \<open>
  Claim C9, as stated, fails. The catalog and the registry stay the same over two
  rebuilds in a row; \<open>range\<close> yields the two uid keys of tenant 1 in one order the first
  time and in the other order the second time. The key \<open>2\<close>, the name of one record
  and the stringified internal id of the other, goes to the record visited first, so the
  second snapshot differs from the first.
\<close>

theorem check_twice_differs:
  "GetAllDataSources (ds (snd (check_locked envAB (timestamp coldDup) coldDup))) =
     GetAllDataSources (ds coldDup) \<and>
   pluginRegistry (snd (check_locked envAB (timestamp coldDup) coldDup)) = pluginRegistry coldDup \<and>
   lookupDS (cache (snd (check_locked envAB (timestamp coldDup) coldDup))) 1 ''2'' =
     Some (newDsVal exPlugins dupA) \<and>
   lookupDS (cache (snd (check_locked envBA 200000000001
      (snd (check_locked envAB (timestamp coldDup) coldDup))))) 1 ''2'' =
     Some (newDsVal exPlugins dupB) \<and>
   cache (snd (check_locked envBA 200000000001
      (snd (check_locked envAB (timestamp coldDup) coldDup)))) \<noteq>
     cache (snd (check_locked envAB (timestamp coldDup) coldDup))"
proof -
  have c1: "check_locked envAB (timestamp coldDup) coldDup =
      (None, coldDup\<lparr>ds := \<lparr>GetAllDataSources = Inr [dupA, dupB], calls = 1\<rparr>,
         cache := Some (build ''grafana'' (\<lambda>orgID. [''a'', ''b'']) exPlugins [dupA, dupB]),
         timestamp := 200000000001\<rparr>)"
    by (simp add: check_locked_def envAB_def exEnv_def coldDup_def coldCache_def)
  have c2: "cache (snd (check_locked envBA 200000000001
      (snd (check_locked envAB (timestamp coldDup) coldDup)))) =
      Some (build ''grafana'' (\<lambda>orgID. [''b'', ''a'']) exPlugins [dupA, dupB])"
    unfolding c1 by (simp add: check_locked_def envBA_def exEnv_def coldDup_def coldCache_def)
  have c1': "cache (snd (check_locked envAB (timestamp coldDup) coldDup)) =
      Some (build ''grafana'' (\<lambda>orgID. [''a'', ''b'']) exPlugins [dupA, dupB])"
    unfolding c1 by simp
  have ne: "Some (build ''grafana'' (\<lambda>orgID. [''b'', ''a'']) exPlugins [dupA, dupB]) \<noteq>
      Some (build ''grafana'' (\<lambda>orgID. [''a'', ''b'']) exPlugins [dupA, dupB])"
  proof
    assume "Some (build ''grafana'' (\<lambda>orgID. [''b'', ''a'']) exPlugins [dupA, dupB]) =
      Some (build ''grafana'' (\<lambda>orgID. [''a'', ''b'']) exPlugins [dupA, dupB])"
    then have "lookupDS (Some (build ''grafana'' (\<lambda>orgID. [''b'', ''a'']) exPlugins [dupA, dupB]))
        1 ''2'' =
      lookupDS (Some (build ''grafana'' (\<lambda>orgID. [''a'', ''b'']) exPlugins [dupA, dupB])) 1 ''2''"
      by (simp only:)
    then have "newDsVal exPlugins dupB = newDsVal exPlugins dupA"
      by (simp only: dup_lookup_ab dup_lookup_ba option.inject)
    with dup_values show False
      by simp
  qed
  have "GetAllDataSources (ds (snd (check_locked envAB (timestamp coldDup) coldDup))) =
      GetAllDataSources (ds coldDup)"
    "pluginRegistry (snd (check_locked envAB (timestamp coldDup) coldDup)) = pluginRegistry coldDup"
    unfolding c1 by (simp_all add: coldDup_def)
  then show ?thesis
    unfolding c2 c1' using ne dup_lookup_ab dup_lookup_ba by simp
qed

text \<open>
  Claim C9, amended. For a fixed catalog result and registry, two rebuilds in a row
  publish equal snapshots whenever the catalog has no competing secondary keys (within
  a tenant, the stringified internal ids and the names of different records are pairwise
  different), each \<open>range\<close> visiting every uid key in whatever order.
\<close>

theorem check_twice_same_snapshot:
  assumes "GetAllDataSources (ds c) = Inr rs" and "collisionFree rs"
    and "covers (rangeKeys e1) rs" and "covers (rangeKeys e2) rs"
    and "DatasourceUID e2 = DatasourceUID e1"
    and "c1 = snd (check_locked e1 (timestamp c) c)"
  shows "cache c1 = Some (build (DatasourceUID e1) (rangeKeys e1) (pluginRegistry c) rs) \<and>
         cache (snd (check_locked e2 (timestamp c1) c1)) = cache c1"
proof -
  have c1: "c1 = c\<lparr>ds := (ds c)\<lparr>calls := calls (ds c) + 1\<rparr>,
      cache := Some (build (DatasourceUID e1) (rangeKeys e1) (pluginRegistry c) rs),
      timestamp := getNow_check e1\<rparr>"
    using assms(1,6) by (simp add: check_locked_ok)
  then have "GetAllDataSources (ds c1) = Inr rs"
    using assms(1) by simp
  then have "cache (snd (check_locked e2 (timestamp c1) c1)) =
      Some (build (DatasourceUID e2) (rangeKeys e2) (pluginRegistry c1) rs)"
    by (simp add: check_locked_ok)
  also have "\<dots> = Some (build (DatasourceUID e1) (rangeKeys e2) (pluginRegistry c) rs)"
    using assms(5) c1 by simp
  also have "\<dots> = Some (build (DatasourceUID e1) (rangeKeys e1) (pluginRegistry c) rs)"
    using build_order [OF assms(2) assms(4) assms(3)] by simp
  finally show ?thesis
    using c1 by simp
qed

lemma collisionFree_named: "collisionFree [promDS, namedDefault]"
  by (simp add: collisionFree_def promDS_def namedDefault_def value_defs)

theorem check_twice_same_snapshot_witness:
  "GetAllDataSources (ds coldNamed) = Inr [promDS, namedDefault] \<and>
   collisionFree [promDS, namedDefault] \<and>
   covers (rangeKeys envNamed) [promDS, namedDefault] \<and>
   covers (rangeKeys envNamedRev) [promDS, namedDefault] \<and>
   cache (snd (check_locked envNamedRev
     (timestamp (snd (check_locked envNamed (timestamp coldNamed) coldNamed)))
     (snd (check_locked envNamed (timestamp coldNamed) coldNamed)))) =
     cache (snd (check_locked envNamed (timestamp coldNamed) coldNamed))"
proof -
  have a: "GetAllDataSources (ds coldNamed) = Inr [promDS, namedDefault]"
    by (simp add: coldNamed_def)
  have b: "covers (rangeKeys envNamed) [promDS, namedDefault]"
    by (simp add: covers_def envNamed_def promDS_def namedDefault_def)
  have c: "covers (rangeKeys envNamedRev) [promDS, namedDefault]"
    by (simp add: covers_def envNamedRev_def promDS_def namedDefault_def)
  have d: "DatasourceUID envNamedRev = DatasourceUID envNamed"
    by (simp add: envNamedRev_def envNamed_def)
  from check_twice_same_snapshot [OF a collisionFree_named b c d refl] a b c collisionFree_named
  show ?thesis by simp
qed


end
